theory Spec2Isabelle
  imports Main "HOL-Library.Word" "HOL-Library.Sublist" "HOL-Library.Code_Target_Numeral"
begin

section \<open>Endpoints, exceptions and pooled objects\<close>

text \<open>
  \<^verbatim>\<open>InetSocketAddress\<close> (pooled-object.h): a host string and a 16-bit port.
  \<^verbatim>\<open>to_string\<close> is \<^verbatim>\<open>host + ":" + std::to_string(port)\<close>; \<open>to_string_nat\<close> is the
  decimal rendering \<^verbatim>\<open>std::to_string\<close> gives for an unsigned value.
\<close>

record InetSocketAddress =
  host :: string
  port :: "16 word"

fun to_string_nat :: "nat \<Rightarrow> string" where
  "to_string_nat n =
     (if n < 10 then [''0123456789'' ! n]
      else to_string_nat (n div 10) @ [''0123456789'' ! (n mod 10)])"

declare to_string_nat.simps [simp del]

definition to_string :: "InetSocketAddress \<Rightarrow> string" where
  "to_string a = host a @ '':'' @ to_string_nat (unat (port a))"

text \<open>
  \<^verbatim>\<open>DPoolException\<close> (dpool-exception.h): a message, the file and the line of the throw.
  These three members are everything the exception carries.
\<close>

record DPoolException =
  errmsg :: string
  ex_file :: string
  ex_line :: int

definition what :: "DPoolException \<Rightarrow> string" where
  "what e = errmsg e"

definition str :: "DPoolException \<Rightarrow> string" where
  "str e = ''dpool: '' @ errmsg e @ ''/@'' @ ex_file e @ '':'' @
     (if ex_line e < 0 then ''-'' @ to_string_nat (nat (- ex_line e)) else to_string_nat (nat (ex_line e)))"

text \<open>
  Pooled objects live on the heap and are shared (\<^verbatim>\<open>std::shared_ptr\<close>) between the shard's
  idle list and the callers, so an object is named by its address and its members are
  read through a store. Shards are named by their address as well: the \<^verbatim>\<open>void*\<close> back
  pointer \<^verbatim>\<open>dataSource_\<close> holds one (\<open>None\<close> is the null pointer).
\<close>

type_synonym conn_id = nat
type_synonym shard_id = nat

record PooledObject =
  serverAddr :: InetSocketAddress
  connTimeout :: int
  dataTimeout :: int
  dataSource :: "shard_id option"
  borrowed :: bool

text \<open>
  The store. \<open>next_conn\<close> is the address \<^verbatim>\<open>std::make_shared\<close> hands out next.
  The constructor of \<^verbatim>\<open>PooledObject\<close> initialises the address and the two timeouts only;
  \<^verbatim>\<open>dataSource_\<close> and \<^verbatim>\<open>borrowed_\<close> keep whatever the memory held.
\<close>

record world =
  heap :: "conn_id \<Rightarrow> PooledObject"
  next_conn :: conn_id

definition make_shared :: "InetSocketAddress \<Rightarrow> int \<Rightarrow> int \<Rightarrow> world \<Rightarrow> conn_id \<times> world" where
  "make_shared addr connTimeout_arg dataTimeout_arg w =
     (let c = next_conn w in
      (c, w\<lparr>heap := (heap w)(c := (heap w c)\<lparr>serverAddr := addr,
                                             connTimeout := connTimeout_arg,
                                             dataTimeout := dataTimeout_arg\<rparr>),
            next_conn := c + 1\<rparr>))"

definition setBorrowed :: "conn_id \<Rightarrow> bool \<Rightarrow> world \<Rightarrow> world" where
  "setBorrowed c v w = w\<lparr>heap := (heap w)(c := (heap w c)\<lparr>borrowed := v\<rparr>)\<rparr>"

definition setDataSource :: "conn_id \<Rightarrow> shard_id \<Rightarrow> world \<Rightarrow> world" where
  "setDataSource c shard w = w\<lparr>heap := (heap w)(c := (heap w c)\<lparr>dataSource := Some shard\<rparr>)\<rparr>"

definition isBorrowed :: "world \<Rightarrow> conn_id \<Rightarrow> bool" where
  "isBorrowed w c = borrowed (heap w c)"

section \<open>Configuration and statistics\<close>

text \<open>
  \<^verbatim>\<open>PoolConfig\<close>: the members are C++ \<^verbatim>\<open>int\<close>s. The default constructor and the
  constructor with explicit arguments are both transcribed with the initialiser lists
  the source has.
\<close>

record PoolConfig =
  maxIdle :: int
  maxActive :: int
  maxFails :: int
  connTimeoutMs :: int
  dataTimeoutMs :: int

definition PoolConfig_default :: PoolConfig where
  "PoolConfig_default =
     \<lparr>maxIdle = 10, maxActive = 100, maxFails = 5, connTimeoutMs = 100, dataTimeoutMs = 100\<rparr>"

definition PoolConfig_explicit :: "int \<Rightarrow> int \<Rightarrow> int \<Rightarrow> int \<Rightarrow> int \<Rightarrow> PoolConfig" where
  "PoolConfig_explicit connTimeoutMs_arg dataTimeoutMs_arg maxIdle_arg maxActive_arg maxFails_arg =
     \<lparr>maxIdle = maxIdle_arg, maxActive = maxActive_arg, maxFails = maxFails_arg,
      connTimeoutMs = 100, dataTimeoutMs = 100\<rparr>"

record PoolStats =
  st_server :: InetSocketAddress
  st_available :: bool
  numActive :: int
  numGet :: int
  numPut :: int
  numBroken :: int
  numDial :: int
  numDialFail :: int
  numEvict :: int
  numClose :: int

definition PoolStats_new :: "InetSocketAddress \<Rightarrow> PoolStats" where
  "PoolStats_new addr =
     \<lparr>st_server = addr, st_available = True, numActive = 0, numGet = 0, numPut = 0,
      numBroken = 0, numDial = 0, numDialFail = 0, numEvict = 0, numClose = 0\<rparr>"

definition reset :: "PoolStats \<Rightarrow> PoolStats" where
  "reset st = st\<lparr>st_available := True, numActive := 0, numGet := 0, numPut := 0,
                numBroken := 0, numDial := 0, numDialFail := 0, numEvict := 0, numClose := 0\<rparr>"

section \<open>The shard (pool-shard.h)\<close>

text \<open>
  Signed members (\<^verbatim>\<open>int\<close>, \<^verbatim>\<open>int32_t\<close>, \<^verbatim>\<open>long\<close>) are integers; their overflow is undefined
  in C++ and outside the model. The unsigned members \<^verbatim>\<open>fails_\<close> and \<^verbatim>\<open>kMaxFails_\<close> are
  32-bit words, so \<^verbatim>\<open>fetch_add\<close> wraps and the constructor's conversion of
  \<^verbatim>\<open>config.maxFails\<close> to \<^verbatim>\<open>uint32_t\<close> is the reduction modulo \<open>2 ^ 32\<close>.
\<close>

record PoolShard =
  server :: InetSocketAddress
  available :: bool
  fails :: "32 word"
  kMaxWait :: int
  kMaxIdle :: int
  stats :: PoolStats
  kMaxActive :: int
  kMaxFails :: "32 word"
  active :: int
  closed :: bool
  s_connTimeoutMs :: int
  s_dataTimeoutMs :: int
  idle :: "conn_id list"

text \<open>\<^verbatim>\<open>const bool kWait_ = false;\<close> is a default member initialiser no constructor overrides.\<close>

definition kWait :: bool where
  "kWait = False"

definition PoolShard_new :: "InetSocketAddress \<Rightarrow> PoolConfig \<Rightarrow> PoolShard" where
  "PoolShard_new srv config =
     \<lparr>server = srv, available = True, fails = 0, kMaxWait = 3, kMaxIdle = maxIdle config,
      stats = PoolStats_new srv, kMaxActive = maxActive config,
      kMaxFails = word_of_int (maxFails config), active = 0, closed = False,
      s_connTimeoutMs = connTimeoutMs config, s_dataTimeoutMs = dataTimeoutMs config,
      idle = []\<rparr>"

text \<open>
  A comparison of a \<^verbatim>\<open>size_t\<close> with an \<^verbatim>\<open>int\<close> converts the \<^verbatim>\<open>int\<close> to the 64-bit unsigned
  type first, so a negative value becomes a huge one.
\<close>

definition to_size_t :: "int \<Rightarrow> nat" where
  "to_size_t x = nat (x mod 2 ^ 64)"

subsection \<open>get\<close>

text \<open>
  One pass through the body of the \<^verbatim>\<open>while (true)\<close> loop of \<^verbatim>\<open>PoolShard::get\<close> is cut at
  the places where the mutex is released. \<open>get_locked\<close> is the part under the lock: it
  reuses the front of the idle list, or reports the closed shard, or reserves a slot
  (\<^verbatim>\<open>active_++\<close>, \<^verbatim>\<open>numDial++\<close>) for a connection to be dialled, or finds the capacity
  exhausted.
\<close>

datatype locked_result = Reuse conn_id | ClosedShard | Dial | Full

definition get_locked :: "world \<Rightarrow> PoolShard \<Rightarrow> locked_result \<times> world \<times> PoolShard" where
  "get_locked w s =
     (case idle s of
        c # rest \<Rightarrow> (Reuse c, setBorrowed c True w, s\<lparr>idle := rest\<rparr>)
      | [] \<Rightarrow>
          if closed s then (ClosedShard, w, s)
          else if kMaxActive s = 0 \<or> active s < kMaxActive s then
            (Dial, w, s\<lparr>active := active s + 1,
                        stats := (stats s)\<lparr>numDial := numDial (stats s) + 1\<rparr>\<rparr>)
          else (Full, w, s))"

text \<open>
  The \<^verbatim>\<open>catch\<close> block: \<^verbatim>\<open>fails_.fetch_add(1)\<close> without the lock, then \<^verbatim>\<open>active_--\<close> and
  \<^verbatim>\<open>numDialFail++\<close> under the lock.
\<close>

definition dial_fail_count :: "PoolShard \<Rightarrow> PoolShard" where
  "dial_fail_count s = s\<lparr>fails := fails s + 1\<rparr>"

definition dial_fail_locked :: "PoolShard \<Rightarrow> PoolShard" where
  "dial_fail_locked s =
     s\<lparr>active := active s - 1,
       stats := (stats s)\<lparr>numDialFail := numDialFail (stats s) + 1\<rparr>\<rparr>"

definition dial_ok :: "PoolShard \<Rightarrow> PoolShard" where
  "dial_ok s = s\<lparr>fails := 0\<rparr>"

text \<open>
  The part outside the lock: the new object is made with the shard's address and its two
  timeouts and opened. Whether \<^verbatim>\<open>open()\<close> throws is decided by the environment:
  \<open>open_ok c\<close> tells whether opening the object at address \<open>c\<close> succeeds. \<open>this\<close> is the
  address of the shard.
\<close>

definition get_dial ::
  "(conn_id \<Rightarrow> bool) \<Rightarrow> shard_id \<Rightarrow> world \<Rightarrow> PoolShard \<Rightarrow> conn_id option \<times> world \<times> PoolShard" where
  "get_dial open_ok this w s =
     (case make_shared (server s) (s_connTimeoutMs s) (s_dataTimeoutMs s) w of
        (c, w1) \<Rightarrow>
          if open_ok c then
            (Some c, setBorrowed c True (setDataSource c this w1), dial_ok s)
          else (None, w1, dial_fail_locked (dial_fail_count s)))"

text \<open>
  The loop body. It either returns, or arrives at \<^verbatim>\<open>cv_.wait_until\<close> (\<open>CvWait\<close>).
\<close>

datatype iter = Return "conn_id option \<times> world \<times> PoolShard" | CvWait world PoolShard

definition get_iter :: "(conn_id \<Rightarrow> bool) \<Rightarrow> shard_id \<Rightarrow> world \<Rightarrow> PoolShard \<Rightarrow> iter" where
  "get_iter open_ok this w s =
     (case get_locked w s of
        (Reuse c, w', s') \<Rightarrow> Return (Some c, w', s')
      | (ClosedShard, w', s') \<Rightarrow> Return (None, w', s')
      | (Dial, w', s') \<Rightarrow> Return (get_dial open_ok this w' s')
      | (Full, w', s') \<Rightarrow> if \<not> kWait then Return (None, w', s') else CvWait w' s')"

text \<open>
  The loop. The deadline \<^verbatim>\<open>start + kMaxWait_\<close> is absolute, so only finitely many waits can
  end before it: \<open>wakeups\<close> is the number of notifications that arrive before the deadline,
  after which \<^verbatim>\<open>wait_until\<close> reports the timeout. No other thread runs in between.
\<close>

fun get_loop ::
  "(conn_id \<Rightarrow> bool) \<Rightarrow> shard_id \<Rightarrow> nat \<Rightarrow> world \<Rightarrow> PoolShard \<Rightarrow> conn_id option \<times> world \<times> PoolShard" where
  "get_loop open_ok this 0 w s =
     (case get_iter open_ok this w s of
        Return r \<Rightarrow> r
      | CvWait w' s' \<Rightarrow> (None, w', s'))"
| "get_loop open_ok this (Suc wakeups) w s =
     (case get_iter open_ok this w s of
        Return r \<Rightarrow> r
      | CvWait w' s' \<Rightarrow> get_loop open_ok this wakeups w' s')"

definition get_enter :: "PoolShard \<Rightarrow> PoolShard" where
  "get_enter s = s\<lparr>stats := (stats s)\<lparr>numGet := numGet (stats s) + 1\<rparr>\<rparr>"

definition PoolShard_get ::
  "(conn_id \<Rightarrow> bool) \<Rightarrow> shard_id \<Rightarrow> nat \<Rightarrow> world \<Rightarrow> PoolShard \<Rightarrow> conn_id option \<times> world \<times> PoolShard" where
  "PoolShard_get open_ok this wakeups w s = get_loop open_ok this wakeups w (get_enter s)"

subsection \<open>put\<close>

text \<open>
  \<^verbatim>\<open>PoolShard::put\<close> runs under the lock from its first line to its return. The result names
  the connection whose reference the shard gives up (the one it closes), if any.
\<close>

definition put_park :: "conn_id \<Rightarrow> PoolShard \<Rightarrow> conn_id option \<times> PoolShard" where
  "put_park pc s =
     (let s1 = s\<lparr>idle := pc # idle s\<rparr> in
      if length (idle s1) > to_size_t (kMaxIdle s1) then
        (Some (last (idle s1)),
         s1\<lparr>idle := butlast (idle s1),
            stats := (stats s1)\<lparr>numEvict := numEvict (stats s1) + 1\<rparr>\<rparr>)
      else (None, s1))"

definition PoolShard_put ::
  "conn_id \<Rightarrow> bool \<Rightarrow> world \<Rightarrow> PoolShard \<Rightarrow> conn_id option \<times> world \<times> PoolShard" where
  "PoolShard_put pc broken w s0 =
     (let s = s0\<lparr>stats := (stats s0)\<lparr>numPut := numPut (stats s0) + 1\<rparr>\<rparr> in
      if \<not> isBorrowed w pc then (None, w, s)
      else
        let w1 = setBorrowed pc False w;
            s1 = (if broken
                  then s\<lparr>fails := fails s + 1,
                         stats := (stats s)\<lparr>numBroken := numBroken (stats s) + 1\<rparr>\<rparr>
                  else s\<lparr>fails := 0\<rparr>)
        in case (if \<not> closed s1 \<and> \<not> broken then put_park pc s1 else (Some pc, s1)) of
             (None, s2) \<Rightarrow> (None, w1, s2)
           | (Some victim, s2) \<Rightarrow>
               (Some victim, w1,
                s2\<lparr>active := active s2 - 1,
                   stats := (stats s2)\<lparr>numClose := numClose (stats s2) + 1\<rparr>\<rparr>))"

subsection \<open>close, availability, statistics\<close>

definition empty_iter :: "PoolShard \<Rightarrow> PoolShard" where
  "empty_iter s =
     s\<lparr>idle := tl (idle s), active := active s - 1,
       stats := (stats s)\<lparr>numClose := numClose (stats s) + 1\<rparr>\<rparr>"

function PoolShard_empty :: "PoolShard \<Rightarrow> PoolShard" where
  "PoolShard_empty s = (if idle s \<noteq> [] then PoolShard_empty (empty_iter s) else s)"
  by pat_completeness auto
termination
  by (relation "measure (\<lambda>s. length (idle s))") (auto simp: empty_iter_def)

declare PoolShard_empty.simps [simp del]

definition PoolShard_close :: "PoolShard \<Rightarrow> PoolShard" where
  "PoolShard_close s = (if closed s then s else PoolShard_empty (s\<lparr>closed := True\<rparr>))"

definition isAvailable :: "PoolShard \<Rightarrow> bool" where
  "isAvailable s = available s"

definition isSuspectable :: "PoolShard \<Rightarrow> bool" where
  "isSuspectable s = (fails s \<ge> kMaxFails s)"

text \<open>\<^verbatim>\<open>compare_exchange_strong(!avail, avail)\<close>: the result tells whether the flag changed.\<close>

definition PoolShard_markAvailable :: "bool \<Rightarrow> PoolShard \<Rightarrow> bool \<times> PoolShard" where
  "PoolShard_markAvailable avail s =
     (if available s = (\<not> avail) then (True, s\<lparr>available := avail\<rparr>) else (False, s))"

definition getShardStats :: "PoolStats \<Rightarrow> PoolShard \<Rightarrow> PoolStats \<times> PoolShard" where
  "getShardStats st s =
     (st\<lparr>st_available := available s, numActive := active s,
         numGet := numGet (stats s), numPut := numPut (stats s),
         numDial := numDial (stats s), numDialFail := numDialFail (stats s),
         numBroken := numBroken (stats s), numEvict := numEvict (stats s),
         numClose := numClose (stats s)\<rparr>,
      s\<lparr>stats := reset (stats s)\<rparr>)"

section \<open>The pool (dpool.h)\<close>

text \<open>
  \<^verbatim>\<open>index_\<close> is a \<^verbatim>\<open>std::atomic<unsigned>\<close>: a 32-bit word whose \<^verbatim>\<open>fetch_add\<close> wraps.
  \<^verbatim>\<open>numAvailable_\<close> is an \<^verbatim>\<open>int\<close>. A shard is named by its position in \<^verbatim>\<open>poolShards_\<close>.
\<close>

record DPool =
  servers :: "InetSocketAddress list"
  poolShards :: "PoolShard list"
  poolConfig :: PoolConfig
  index :: "32 word"
  numAvailable :: int
  pool_closed :: bool

text \<open>
  The constructor asserts that \<open>servers\<close> is not empty. It does not initialise \<^verbatim>\<open>index_\<close>:
  \<open>index0\<close> is the value the memory happens to hold.
\<close>

definition DPool_new :: "InetSocketAddress list \<Rightarrow> PoolConfig \<Rightarrow> 32 word \<Rightarrow> DPool" where
  "DPool_new servers_arg config index0 =
     \<lparr>servers = servers_arg,
      poolShards = map (\<lambda>a. PoolShard_new a config) servers_arg,
      poolConfig = config, index = index0,
      numAvailable = int (length servers_arg), pool_closed = False\<rparr>"

text \<open>The exception thrown at line 68 of dpool.h, with \<^verbatim>\<open>__FILE__\<close> and \<^verbatim>\<open>__LINE__\<close>.\<close>

definition max_retries_exception :: DPoolException where
  "max_retries_exception =
     \<lparr>errmsg = ''failed to get connection after max retries'', ex_file = ''dpool.h'',
      ex_line = 68\<rparr>"

text \<open>
  The \<^verbatim>\<open>for\<close> loop of \<^verbatim>\<open>DPool::get\<close>, entered with the loop counter \<open>tries\<close>. The sum
  \<^verbatim>\<open>localIndex + tries\<close> is unsigned 32-bit arithmetic; the remainder is taken in \<^verbatim>\<open>size_t\<close>.
  A thrown exception is the left summand of the result. The divisor \<^verbatim>\<open>servers_.size()\<close> is
  not 0 in a pool the constructor has built (\<open>pool_wf\<close> below).
\<close>

function get_from ::
  "(conn_id \<Rightarrow> bool) \<Rightarrow> nat \<Rightarrow> 32 word \<Rightarrow> nat \<Rightarrow> world \<Rightarrow> DPool
     \<Rightarrow> (DPoolException + conn_id) \<times> world \<times> DPool" where
  "get_from open_ok wakeups localIndex tries w p =
     (if tries < 5 then
        let idx = unat (localIndex + of_nat tries) mod length (servers p) in
        if \<not> isAvailable (poolShards p ! idx) then
          get_from open_ok wakeups localIndex (tries + 1) w (p\<lparr>index := index p + 1\<rparr>)
        else
          let r = PoolShard_get open_ok idx wakeups w (poolShards p ! idx);
              p' = p\<lparr>poolShards := (poolShards p)[idx := snd (snd r)]\<rparr>
          in case fst r of
               None \<Rightarrow>
                 get_from open_ok wakeups localIndex (tries + 1) (fst (snd r))
                   (p'\<lparr>index := index p' + 1\<rparr>)
             | Some pc \<Rightarrow> (Inr pc, fst (snd r), p')
      else (Inl max_retries_exception, w, p))"
  by pat_completeness auto
termination
  by (relation "measure (\<lambda>(open_ok, wakeups, localIndex, tries, w, p). 5 - tries)") auto

declare get_from.simps [simp del]

definition DPool_get ::
  "(conn_id \<Rightarrow> bool) \<Rightarrow> nat \<Rightarrow> world \<Rightarrow> DPool \<Rightarrow> (DPoolException + conn_id) \<times> world \<times> DPool" where
  "DPool_get open_ok wakeups w p =
     get_from open_ok wakeups (index p) 0 w (p\<lparr>index := index p + 1\<rparr>)"

text \<open>
  \<^verbatim>\<open>DPool::put\<close> follows the back pointer of the connection; the assertion on a null back
  pointer is the result \<open>None\<close>.
\<close>

definition DPool_put ::
  "conn_id \<Rightarrow> bool \<Rightarrow> world \<Rightarrow> DPool \<Rightarrow> (conn_id option \<times> world \<times> DPool) option" where
  "DPool_put pc broken w p =
     (case dataSource (heap w pc) of
        None \<Rightarrow> None
      | Some shard \<Rightarrow>
          (case PoolShard_put pc broken w (poolShards p ! shard) of
             (victim, w', s') \<Rightarrow> Some (victim, w', p\<lparr>poolShards := (poolShards p)[shard := s']\<rparr>)))"

text \<open>
  \<^verbatim>\<open>DPool::markAvailable\<close>, called by the health check thread only. In the guard
  \<^verbatim>\<open>numAvailable_*3 > servers_.size()*2\<close> the left side is an \<^verbatim>\<open>int\<close> and is converted to
  \<^verbatim>\<open>size_t\<close>; the right side is computed in \<^verbatim>\<open>size_t\<close>.
\<close>

definition DPool_markAvailable :: "shard_id \<Rightarrow> bool \<Rightarrow> DPool \<Rightarrow> DPool" where
  "DPool_markAvailable shard b p =
     (if b then
        (case PoolShard_markAvailable True (poolShards p ! shard) of
           (True, s') \<Rightarrow> p\<lparr>poolShards := (poolShards p)[shard := s'],
                            numAvailable := numAvailable p + 1\<rparr>
         | (False, s') \<Rightarrow> p)
      else if to_size_t (numAvailable p * 3) > (length (servers p) * 2) mod 2 ^ 64 then
        (case PoolShard_markAvailable False (poolShards p ! shard) of
           (True, s') \<Rightarrow> p\<lparr>poolShards := (poolShards p)[shard := s'],
                            numAvailable := numAvailable p - 1\<rparr>
         | (False, s') \<Rightarrow> p)
      else p)"

text \<open>A sequence of calls of the health check thread: which shard, and the probe's verdict.\<close>

fun prober_calls :: "(shard_id \<times> bool) list \<Rightarrow> DPool \<Rightarrow> DPool" where
  "prober_calls [] p = p"
| "prober_calls ((shard, ok) # cs) p = prober_calls cs (DPool_markAvailable shard ok p)"

section \<open>Predicates of the specification\<close>

text \<open>The capacity invariant of a shard.\<close>

definition capacity_inv :: "PoolShard \<Rightarrow> bool" where
  "capacity_inv s \<longleftrightarrow>
     (kMaxActive s > 0 \<longrightarrow> active s \<le> kMaxActive s) \<and> int (length (idle s)) \<le> kMaxIdle s"

text \<open>A pool as the constructor leaves it: some servers, and one shard for each.\<close>

definition pool_wf :: "DPool \<Rightarrow> bool" where
  "pool_wf p \<longleftrightarrow> servers p \<noteq> [] \<and> length (poolShards p) = length (servers p)"

text \<open>
  The acquire of the specification, in its words: from try \<open>t\<close> on, with \<open>local\<close> the
  snapshot of the cursor. An unavailable shard is skipped and the cursor advanced; a
  shard whose acquire returns null advances the cursor too; the first connection is
  returned; after five tries the call fails.
\<close>

inductive spec_tries ::
  "(conn_id \<Rightarrow> bool) \<Rightarrow> nat \<Rightarrow> 32 word \<Rightarrow> nat \<Rightarrow> world \<Rightarrow> DPool
     \<Rightarrow> (DPoolException + conn_id) \<times> world \<times> DPool \<Rightarrow> bool"
  for open_ok :: "conn_id \<Rightarrow> bool" and wakeups :: nat and local :: "32 word"
where
  exhausted:
    "5 \<le> t \<Longrightarrow> spec_tries open_ok wakeups local t w p (Inl max_retries_exception, w, p)"
| skip:
    "t < 5 \<Longrightarrow> i = unat (local + of_nat t) mod length (poolShards p) \<Longrightarrow>
     \<not> available (poolShards p ! i) \<Longrightarrow>
     spec_tries open_ok wakeups local (Suc t) w (p\<lparr>index := index p + 1\<rparr>) r \<Longrightarrow>
     spec_tries open_ok wakeups local t w p r"
| null:
    "t < 5 \<Longrightarrow> i = unat (local + of_nat t) mod length (poolShards p) \<Longrightarrow>
     available (poolShards p ! i) \<Longrightarrow>
     PoolShard_get open_ok i wakeups w (poolShards p ! i) = (None, w', s') \<Longrightarrow>
     spec_tries open_ok wakeups local (Suc t) w'
       (p\<lparr>poolShards := (poolShards p)[i := s'], index := index p + 1\<rparr>) r \<Longrightarrow>
     spec_tries open_ok wakeups local t w p r"
| found:
    "t < 5 \<Longrightarrow> i = unat (local + of_nat t) mod length (poolShards p) \<Longrightarrow>
     available (poolShards p ! i) \<Longrightarrow>
     PoolShard_get open_ok i wakeups w (poolShards p ! i) = (Some c, w', s') \<Longrightarrow>
     spec_tries open_ok wakeups local t w p
       (Inr c, w', p\<lparr>poolShards := (poolShards p)[i := s']\<rparr>)"

definition spec_acquire ::
  "(conn_id \<Rightarrow> bool) \<Rightarrow> nat \<Rightarrow> world \<Rightarrow> DPool
     \<Rightarrow> (DPoolException + conn_id) \<times> world \<times> DPool \<Rightarrow> bool" where
  "spec_acquire open_ok wakeups w p r =
     spec_tries open_ok wakeups (index p) 0 w (p\<lparr>index := index p + 1\<rparr>) r"

code_pred (modes: i \<Rightarrow> i \<Rightarrow> i \<Rightarrow> i \<Rightarrow> i \<Rightarrow> i \<Rightarrow> o \<Rightarrow> bool) spec_tries .

text \<open>The number of shards whose flag says available, and what the health check keeps true.\<close>

definition available_count :: "DPool \<Rightarrow> int" where
  "available_count p = int (length (filter available (poolShards p)))"

definition quorum_inv :: "DPool \<Rightarrow> bool" where
  "quorum_inv p \<longleftrightarrow>
     pool_wf p \<and> 3 * int (length (servers p)) < 2 ^ 31 \<and>
     numAvailable p = available_count p \<and>
     2 * int (length (servers p)) < 3 * (numAvailable p + 1)"

section \<open>The example program's pool\<close>

text \<open>
  The driver program builds a pool over three local servers with the default
  configuration. These states serve as concrete inputs below.
\<close>

definition example_addr :: InetSocketAddress where
  "example_addr = \<lparr>host = ''127.0.0.1'', port = 6379\<rparr>"

definition example_servers :: "InetSocketAddress list" where
  "example_servers =
     [\<lparr>host = ''127.0.0.1'', port = 6379\<rparr>, \<lparr>host = ''127.0.0.1'', port = 6380\<rparr>,
      \<lparr>host = ''127.0.0.1'', port = 6381\<rparr>]"

definition example_pool :: DPool where
  "example_pool = DPool_new example_servers PoolConfig_default 0"

definition example_pool_down :: DPool where
  "example_pool_down =
     example_pool\<lparr>poolShards := map (\<lambda>s. s\<lparr>available := False\<rparr>) (poolShards example_pool)\<rparr>"

definition example_shard :: PoolShard where
  "example_shard = PoolShard_new example_addr PoolConfig_default"

text \<open>A store in which no object is marked borrowed, and one in which object 0 is.\<close>

definition example_world :: world where
  "example_world =
     \<lparr>heap = (\<lambda>c. \<lparr>serverAddr = \<lparr>host = [], port = 0\<rparr>, connTimeout = 0, dataTimeout = 0,
                    dataSource = None, borrowed = False\<rparr>),
      next_conn = 1\<rparr>"

definition example_world_borrowed :: world where
  "example_world_borrowed = setBorrowed 0 True example_world"

text \<open>Two environments: every \<^verbatim>\<open>open()\<close> succeeds, every \<^verbatim>\<open>open()\<close> throws.\<close>

definition open_always :: "conn_id \<Rightarrow> bool" where
  "open_always c = True"

definition open_never :: "conn_id \<Rightarrow> bool" where
  "open_never c = False"

section \<open>Shard: auxiliary facts\<close>

text \<open>Since \<open>kWait\<close> is false the loop of \<open>get\<close> ends in its first pass.\<close>

lemma get_loop_once:
  "get_loop open_ok this n w s =
     (case get_locked w s of
        (Reuse c, w', s') \<Rightarrow> (Some c, w', s')
      | (ClosedShard, w', s') \<Rightarrow> (None, w', s')
      | (Dial, w', s') \<Rightarrow> get_dial open_ok this w' s'
      | (Full, w', s') \<Rightarrow> (None, w', s'))"
  by (cases n) (simp_all add: get_iter_def kWait_def split: prod.splits locked_result.splits)

lemma get_dials:
  assumes "idle s = []" "\<not> closed s" "kMaxActive s = 0 \<or> active s < kMaxActive s"
  shows "PoolShard_get open_ok this wakeups w s =
     get_dial open_ok this w
       (s\<lparr>active := active s + 1,
          stats := (stats s)\<lparr>numGet := numGet (stats s) + 1, numDial := numDial (stats s) + 1\<rparr>\<rparr>)"
  using assms
  by (auto simp: PoolShard_get_def get_loop_once get_locked_def get_enter_def)

lemma capacity_get_locked: "capacity_inv s \<Longrightarrow> capacity_inv (snd (snd (get_locked w s)))"
  by (auto simp: capacity_inv_def get_locked_def split: list.splits)

lemma capacity_get_dial:
  "capacity_inv s \<Longrightarrow> capacity_inv (snd (snd (get_dial open_ok this w s)))"
  by (auto simp: capacity_inv_def get_dial_def make_shared_def Let_def dial_ok_def
      dial_fail_locked_def dial_fail_count_def)

lemma capacity_get_enter: "capacity_inv s \<Longrightarrow> capacity_inv (get_enter s)"
  by (simp add: capacity_inv_def get_enter_def)

lemma capacity_get:
  assumes "capacity_inv s"
  shows "capacity_inv (snd (snd (PoolShard_get open_ok this wakeups w s)))"
proof -
  let ?s = "get_enter s"
  obtain r w' s' where l: "get_locked w ?s = (r, w', s')"
    by (cases "get_locked w ?s") auto
  from capacity_get_locked[OF capacity_get_enter[OF assms], of w] l
  have inv': "capacity_inv s'" by simp
  show ?thesis
  proof (cases r)
    case Dial
    with l inv' show ?thesis
      by (simp add: PoolShard_get_def get_loop_once capacity_get_dial)
  qed (use l inv' in \<open>simp_all add: PoolShard_get_def get_loop_once\<close>)
qed

lemma capacity_put_park: "capacity_inv s \<Longrightarrow> capacity_inv (snd (put_park pc s))"
proof -
  assume inv: "capacity_inv s"
  then have "0 \<le> kMaxIdle s" by (simp add: capacity_inv_def)
  then have "int (to_size_t (kMaxIdle s)) \<le> kMaxIdle s"
    by (simp add: to_size_t_def zmod_le_nonneg_dividend)
  with inv show ?thesis
    by (auto simp: capacity_inv_def put_park_def Let_def)
qed

lemma capacity_close_one:
  "capacity_inv u \<Longrightarrow>
   capacity_inv (u\<lparr>active := active u - 1,
                   stats := (stats u)\<lparr>numClose := numClose (stats u) + 1\<rparr>\<rparr>)"
  by (auto simp: capacity_inv_def)

lemma put_duplicate:
  "\<not> isBorrowed w pc \<Longrightarrow>
   PoolShard_put pc broken w s =
     (None, w, s\<lparr>stats := (stats s)\<lparr>numPut := numPut (stats s) + 1\<rparr>\<rparr>)"
  by (simp add: PoolShard_put_def)

lemma put_broken:
  "isBorrowed w pc \<Longrightarrow>
   PoolShard_put pc True w s =
     (Some pc, setBorrowed pc False w,
      s\<lparr>fails := fails s + 1, active := active s - 1,
        stats := (stats s)\<lparr>numPut := numPut (stats s) + 1,
                           numBroken := numBroken (stats s) + 1,
                           numClose := numClose (stats s) + 1\<rparr>\<rparr>)"
  by (simp add: PoolShard_put_def Let_def)

lemma put_clean_closed:
  "isBorrowed w pc \<Longrightarrow> closed s \<Longrightarrow>
   PoolShard_put pc False w s =
     (Some pc, setBorrowed pc False w,
      s\<lparr>fails := 0, active := active s - 1,
        stats := (stats s)\<lparr>numPut := numPut (stats s) + 1,
                           numClose := numClose (stats s) + 1\<rparr>\<rparr>)"
  by (simp add: PoolShard_put_def Let_def)

lemma put_clean_open:
  "isBorrowed w pc \<Longrightarrow> \<not> closed s \<Longrightarrow>
   PoolShard_put pc False w s =
     (case put_park pc (s\<lparr>stats := (stats s)\<lparr>numPut := numPut (stats s) + 1\<rparr>,
                          fails := 0\<rparr>) of
        (None, s2) \<Rightarrow> (None, setBorrowed pc False w, s2)
      | (Some victim, s2) \<Rightarrow>
          (Some victim, setBorrowed pc False w,
           s2\<lparr>active := active s2 - 1,
              stats := (stats s2)\<lparr>numClose := numClose (stats s2) + 1\<rparr>\<rparr>))"
  by (simp add: PoolShard_put_def Let_def)

lemma capacity_put:
  assumes "capacity_inv s"
  shows "capacity_inv (snd (snd (PoolShard_put pc broken w s)))"
proof (cases "isBorrowed w pc")
  case False
  with assms show ?thesis by (simp add: put_duplicate capacity_inv_def)
next
  case b: True
  show ?thesis
  proof (cases broken)
    case True
    with b assms show ?thesis by (auto simp: put_broken capacity_inv_def)
  next
    case nb: False
    show ?thesis
    proof (cases "closed s")
      case True
      with b nb assms show ?thesis by (auto simp: put_clean_closed capacity_inv_def)
    next
      case False
      let ?s1 = "s\<lparr>stats := (stats s)\<lparr>numPut := numPut (stats s) + 1\<rparr>, fails := 0\<rparr>"
      have "capacity_inv ?s1" using assms by (simp add: capacity_inv_def)
      from capacity_put_park[OF this, of pc] have "capacity_inv (snd (put_park pc ?s1))" .
      with b nb False show ?thesis
        by (cases "put_park pc ?s1") (auto simp: put_clean_open capacity_close_one split: option.splits)
    qed
  qed
qed

lemma capacity_empty_iter: "capacity_inv s \<Longrightarrow> capacity_inv (empty_iter s)"
  by (auto simp: capacity_inv_def empty_iter_def)

lemma capacity_empty: "capacity_inv s \<Longrightarrow> capacity_inv (PoolShard_empty s)"
proof (induction s rule: PoolShard_empty.induct)
  case (1 s)
  then show ?case
    by (subst PoolShard_empty.simps) (simp add: capacity_empty_iter)
qed

lemma capacity_close: "capacity_inv s \<Longrightarrow> capacity_inv (PoolShard_close s)"
proof -
  assume inv: "capacity_inv s"
  then have "capacity_inv (s\<lparr>closed := True\<rparr>)" by (simp add: capacity_inv_def)
  then show ?thesis using inv by (simp add: PoolShard_close_def capacity_empty)
qed

lemma get_locked_active:
  "active (snd (snd (get_locked w s))) =
     (if idle s = [] \<and> \<not> closed s \<and> (kMaxActive s = 0 \<or> active s < kMaxActive s)
      then active s + 1 else active s)"
  by (auto simp: get_locked_def split: list.splits)

lemmas example_simps = example_shard_def example_world_def example_world_borrowed_def
  example_addr_def PoolShard_new_def PoolConfig_default_def PoolStats_new_def
  setBorrowed_def isBorrowed_def open_always_def open_never_def

lemmas pool_example_simps = example_pool_down_def example_pool_def DPool_new_def
  example_servers_def PoolShard_new_def PoolConfig_default_def PoolStats_new_def

section \<open>Shard: capacity\<close>

text \<open>
  Claim C3. Every operation of a shard preserves the capacity invariant
  (\<open>active \<le> maxActive\<close> whenever \<open>maxActive > 0\<close>, and \<open>idle.size() \<le> maxIdle\<close>), and it
  does so at every place where the mutex is released: the entry and the locked part of
  \<open>get\<close>, the three steps that follow a dial, the whole of \<open>get\<close>, \<open>put\<close>, one pass of the
  drain loop, \<open>close\<close>, the statistics readout and the availability flag. Each of these
  steps preserves the invariant from any state that has it. The locked part of \<open>get\<close>
  increments \<open>active\<close> exactly when the idle list is empty, the shard is open, and
  \<open>maxActive = 0\<close> or \<open>active < maxActive\<close>. A new shard has the invariant when \<open>maxIdle\<close>
  is not negative.
\<close>

theorem capacity_invariant_preserved:
  assumes "capacity_inv s"
  shows "capacity_inv (get_enter s)
       \<and> capacity_inv (snd (snd (get_locked w s)))
       \<and> capacity_inv (dial_ok s)
       \<and> capacity_inv (dial_fail_count s)
       \<and> capacity_inv (dial_fail_locked s)
       \<and> capacity_inv (snd (snd (PoolShard_get open_ok this wakeups w s)))
       \<and> capacity_inv (snd (snd (PoolShard_put pc broken w s)))
       \<and> capacity_inv (empty_iter s)
       \<and> capacity_inv (PoolShard_close s)
       \<and> capacity_inv (snd (getShardStats st s))
       \<and> capacity_inv (snd (PoolShard_markAvailable b s))
       \<and> active (snd (snd (get_locked w s))) =
           (if idle s = [] \<and> \<not> closed s \<and> (kMaxActive s = 0 \<or> active s < kMaxActive s)
            then active s + 1 else active s)
       \<and> (0 \<le> maxIdle config \<longrightarrow> capacity_inv (PoolShard_new srv config))"
proof -
  have "0 \<le> maxIdle config \<longrightarrow> capacity_inv (PoolShard_new srv config)"
    by (simp add: capacity_inv_def PoolShard_new_def)
  moreover
  have "capacity_inv (dial_ok s)" "capacity_inv (dial_fail_count s)"
    "capacity_inv (dial_fail_locked s)" "capacity_inv (snd (getShardStats st s))"
    "capacity_inv (snd (PoolShard_markAvailable b s))"
    using assms
    by (auto simp: capacity_inv_def dial_ok_def dial_fail_count_def dial_fail_locked_def
        getShardStats_def PoolShard_markAvailable_def)
  ultimately show ?thesis
    using assms
    by (simp only: capacity_get_enter capacity_get_locked capacity_get capacity_put
        capacity_empty_iter capacity_close get_locked_active simp_thms)
qed

theorem capacity_invariant_preserved_witness:
  "capacity_inv example_shard
   \<and> capacity_inv (snd (snd (PoolShard_get open_always 0 0 example_world example_shard)))
   \<and> capacity_inv (snd (snd (PoolShard_put 0 False example_world_borrowed example_shard)))
   \<and> active (snd (snd (get_locked example_world example_shard))) = 1"
proof -
  have h: "capacity_inv example_shard"
    by (simp add: capacity_inv_def example_shard_def PoolShard_new_def PoolConfig_default_def)
  have a: "idle example_shard = []" "\<not> closed example_shard" "active example_shard = 0"
    "kMaxActive example_shard = 100"
    by (simp_all add: example_shard_def PoolShard_new_def PoolConfig_default_def)
  from capacity_invariant_preserved[OF h, of example_world open_always 0 0 0 False]
    capacity_invariant_preserved[OF h, of example_world_borrowed open_always 0 0 0 False]
  show ?thesis using h a by simp
qed

section \<open>Shard: get and put\<close>

text \<open>
  Claim C10. The wait on the condition variable is never reached. In a state where the
  idle list is empty, the shard is open and the capacity is exhausted (\<open>maxActive\<close> is not
  0 and \<open>active \<ge> maxActive\<close>), the loop body of \<open>get\<close> returns null at once, and \<open>get\<close>
  returns null with nothing changed but \<open>numGet\<close>, whatever number of notifications
  would have arrived. More generally the loop body arrives at the wait in no state at
  all, because \<open>kWait\<close> is the constant false.
\<close>

theorem get_never_waits:
  assumes "idle s = []" and "\<not> closed s" and "kMaxActive s \<noteq> 0" and "kMaxActive s \<le> active s"
  shows "get_iter open_ok this w (get_enter s) = Return (None, w, get_enter s)
       \<and> PoolShard_get open_ok this wakeups w s = (None, w, get_enter s)
       \<and> (\<forall>ok t v u v' u'. get_iter ok t v u \<noteq> CvWait v' u')"
  using assms
  by (auto simp: PoolShard_get_def get_loop_once get_iter_def get_locked_def get_enter_def kWait_def
      split: list.splits prod.splits locked_result.splits)

theorem get_never_waits_witness:
  "idle (example_shard\<lparr>kMaxActive := 1, active := 1\<rparr>) = []
   \<and> \<not> closed (example_shard\<lparr>kMaxActive := 1, active := 1\<rparr>)
   \<and> kMaxActive (example_shard\<lparr>kMaxActive := 1, active := 1\<rparr>) \<noteq> 0
   \<and> kMaxActive (example_shard\<lparr>kMaxActive := 1, active := 1\<rparr>)
       \<le> active (example_shard\<lparr>kMaxActive := 1, active := 1\<rparr>)
   \<and> PoolShard_get open_always 0 7 example_world (example_shard\<lparr>kMaxActive := 1, active := 1\<rparr>) =
       (None, example_world, get_enter (example_shard\<lparr>kMaxActive := 1, active := 1\<rparr>))"
proof -
  let ?s = "example_shard\<lparr>kMaxActive := 1, active := 1\<rparr>"
  have h: "idle ?s = []" "\<not> closed ?s" "kMaxActive ?s \<noteq> 0" "kMaxActive ?s \<le> active ?s"
    by (simp_all add: example_simps)
  from get_never_waits[OF h, of open_always 0 example_world 7] h show ?thesis by simp
qed

text \<open>
  Claim C5. When \<open>get\<close> dials (empty idle list, open shard, capacity left) and \<open>open()\<close>
  throws, \<open>get\<close> returns null; \<open>fails\<close> and \<open>numDialFail\<close> have grown by 1, \<open>numGet\<close> and
  \<open>numDial\<close> have grown by 1 for the attempt, \<open>active\<close> is back at its value before the
  call, and nothing else in the shard has changed.
\<close>

theorem get_open_failure_rollback:
  assumes "idle s = []" and "\<not> closed s" and "kMaxActive s = 0 \<or> active s < kMaxActive s"
    and "\<not> open_ok (next_conn w)"
  shows "fst (PoolShard_get open_ok this wakeups w s) = None
       \<and> snd (snd (PoolShard_get open_ok this wakeups w s)) =
           s\<lparr>fails := fails s + 1,
             stats := (stats s)\<lparr>numGet := numGet (stats s) + 1,
                                numDial := numDial (stats s) + 1,
                                numDialFail := numDialFail (stats s) + 1\<rparr>\<rparr>
       \<and> active (snd (snd (PoolShard_get open_ok this wakeups w s))) = active s"
  using assms(4)
  by (simp add: get_dials[OF assms(1-3)] get_dial_def make_shared_def Let_def
      dial_fail_locked_def dial_fail_count_def)

theorem get_open_failure_rollback_witness:
  "idle example_shard = [] \<and> \<not> closed example_shard
   \<and> (kMaxActive example_shard = 0 \<or> active example_shard < kMaxActive example_shard)
   \<and> \<not> open_never (next_conn example_world)
   \<and> fst (PoolShard_get open_never 0 0 example_world example_shard) = None
   \<and> fails (snd (snd (PoolShard_get open_never 0 0 example_world example_shard))) = 1
   \<and> active (snd (snd (PoolShard_get open_never 0 0 example_world example_shard))) = 0"
proof -
  have h: "idle example_shard = []" "\<not> closed example_shard"
    "kMaxActive example_shard = 0 \<or> active example_shard < kMaxActive example_shard"
    "\<not> open_never (next_conn example_world)"
    by (simp_all add: example_simps)
  from get_open_failure_rollback[where s = example_shard and open_ok = open_never
      and w = example_world and this = 0 and wakeups = 0] h
  show ?thesis by (simp add: example_simps)
qed

text \<open>
  Claim C6. A release of a connection whose borrowed flag is already false changes
  nothing but \<open>numPut\<close>, which grows by 1: the store (and with it the connection and its
  flag) is the same, the shard gives up no connection, and the idle list, \<open>active\<close>,
  \<open>fails\<close> and the other counters are the same.
\<close>

theorem put_duplicate_release:
  assumes "\<not> isBorrowed w pc"
  shows "PoolShard_put pc broken w s =
     (None, w, s\<lparr>stats := (stats s)\<lparr>numPut := numPut (stats s) + 1\<rparr>\<rparr>)"
  using assms by (simp add: PoolShard_put_def)

theorem put_duplicate_release_witness:
  "\<not> isBorrowed example_world 0
   \<and> PoolShard_put 0 True example_world example_shard =
       (None, example_world,
        example_shard\<lparr>stats := (stats example_shard)\<lparr>numPut := 1\<rparr>\<rparr>)"
proof -
  have h: "\<not> isBorrowed example_world 0" by (simp add: example_simps)
  from put_duplicate_release[OF h, of True example_shard] h show ?thesis
    by (simp add: example_simps)
qed

text \<open>
  Claim C7. On an open shard, let a borrowed connection \<open>c\<close> be released clean. When \<open>c\<close>
  is not the connection the release evicts, the release leaves \<open>c\<close> at the front of the
  idle list with its borrowed flag cleared, and the next \<open>get\<close> on the shard returns \<open>c\<close>,
  pops it from the front of the idle list, sets its borrowed flag again and changes
  nothing else but \<open>numGet\<close>. When the idle list stays within \<open>maxIdle\<close> after the push,
  the release evicts nothing and pushes \<open>c\<close> on the front; after the \<open>get\<close> that follows
  the idle list is the one before the release, \<open>active\<close> is unchanged, and no connection
  has been dialled.
\<close>

theorem lifo_round_trip:
  assumes "\<not> closed s" and "isBorrowed w c"
  shows "(fst (PoolShard_put c False w s) \<noteq> Some c \<longrightarrow>
            fst (snd (PoolShard_put c False w s)) = setBorrowed c False w
          \<and> idle (snd (snd (PoolShard_put c False w s))) =
              c # tl (idle (snd (snd (PoolShard_put c False w s))))
          \<and> PoolShard_get open_ok this wakeups
                (fst (snd (PoolShard_put c False w s)))
                (snd (snd (PoolShard_put c False w s))) =
              (Some c,
               setBorrowed c True (fst (snd (PoolShard_put c False w s))),
               (get_enter (snd (snd (PoolShard_put c False w s))))
                 \<lparr>idle := tl (idle (snd (snd (PoolShard_put c False w s))))\<rparr>)
          \<and> isBorrowed (fst (snd (PoolShard_get open_ok this wakeups
                (fst (snd (PoolShard_put c False w s)))
                (snd (snd (PoolShard_put c False w s))))))
              c)
       \<and> (length (idle s) < to_size_t (kMaxIdle s) \<longrightarrow>
            PoolShard_put c False w s =
              (None, setBorrowed c False w,
               s\<lparr>stats := (stats s)\<lparr>numPut := numPut (stats s) + 1\<rparr>, fails := 0,
                 idle := c # idle s\<rparr>)
          \<and> PoolShard_get open_ok this wakeups (setBorrowed c False w)
                (s\<lparr>stats := (stats s)\<lparr>numPut := numPut (stats s) + 1\<rparr>, fails := 0,
                   idle := c # idle s\<rparr>) =
              (Some c, setBorrowed c True (setBorrowed c False w),
               s\<lparr>stats := (stats s)\<lparr>numPut := numPut (stats s) + 1,
                                  numGet := numGet (stats s) + 1\<rparr>,
                 fails := 0\<rparr>))"
proof -
  let ?s1 = "s\<lparr>stats := (stats s)\<lparr>numPut := numPut (stats s) + 1\<rparr>, fails := 0\<rparr>"
  let ?put = "PoolShard_put c False w s"
  obtain v s2 where pp: "put_park c ?s1 = (v, s2)" by (cases "put_park c ?s1") auto
  have reuse: "PoolShard_get open_ok this wakeups w' s' =
      (Some c, setBorrowed c True w', (get_enter s')\<lparr>idle := tl (idle s')\<rparr>)"
    if "idle s' = c # rest" for w' s' rest
    using that by (simp add: PoolShard_get_def get_loop_once get_locked_def get_enter_def)
  have general: "fst (snd ?put) = setBorrowed c False w
      \<and> idle (snd (snd ?put)) = c # tl (idle (snd (snd ?put)))
      \<and> PoolShard_get open_ok this wakeups (fst (snd ?put)) (snd (snd ?put)) =
          (Some c, setBorrowed c True (fst (snd ?put)),
           (get_enter (snd (snd ?put)))\<lparr>idle := tl (idle (snd (snd ?put)))\<rparr>)
      \<and> isBorrowed (fst (snd (PoolShard_get open_ok this wakeups
            (fst (snd ?put)) (snd (snd ?put))))) c"
    if ne: "fst ?put \<noteq> Some c"
  proof -
    from assms pp ne have v: "v \<noteq> Some c"
      by (auto simp: put_clean_open split: option.splits)
    from pp v have "\<exists>rest. idle s2 = c # rest"
      by (cases "idle s") (auto simp: put_park_def Let_def split: if_splits)
    then obtain rest where i2: "idle s2 = c # rest" ..
    have "\<exists>s'. ?put = (v, setBorrowed c False w, s') \<and> idle s' = c # rest"
      using assms pp i2 by (cases v) (simp_all add: put_clean_open)
    then obtain s' where p: "?put = (v, setBorrowed c False w, s')"
      and i: "idle s' = c # rest"
      by blast
    from reuse[OF i, of "setBorrowed c False w"] i show ?thesis
      by (simp add: p isBorrowed_def setBorrowed_def)
  qed
  have kept: "?put =
        (None, setBorrowed c False w,
         s\<lparr>stats := (stats s)\<lparr>numPut := numPut (stats s) + 1\<rparr>, fails := 0,
           idle := c # idle s\<rparr>)
      \<and> PoolShard_get open_ok this wakeups (setBorrowed c False w)
          (s\<lparr>stats := (stats s)\<lparr>numPut := numPut (stats s) + 1\<rparr>, fails := 0,
             idle := c # idle s\<rparr>) =
        (Some c, setBorrowed c True (setBorrowed c False w),
         s\<lparr>stats := (stats s)\<lparr>numPut := numPut (stats s) + 1,
                            numGet := numGet (stats s) + 1\<rparr>,
           fails := 0\<rparr>)"
    if "length (idle s) < to_size_t (kMaxIdle s)"
  proof -
    have "?put =
        (None, setBorrowed c False w,
         s\<lparr>stats := (stats s)\<lparr>numPut := numPut (stats s) + 1\<rparr>, fails := 0,
           idle := c # idle s\<rparr>)"
      using assms that by (simp add: put_clean_open put_park_def Let_def)
    moreover have "PoolShard_get open_ok this wakeups (setBorrowed c False w)
          (s\<lparr>stats := (stats s)\<lparr>numPut := numPut (stats s) + 1\<rparr>, fails := 0,
             idle := c # idle s\<rparr>) =
        (Some c, setBorrowed c True (setBorrowed c False w),
         s\<lparr>stats := (stats s)\<lparr>numPut := numPut (stats s) + 1,
                            numGet := numGet (stats s) + 1\<rparr>,
           fails := 0\<rparr>)"
      by (simp add: PoolShard_get_def get_loop_once get_locked_def get_enter_def)
    ultimately show ?thesis by simp
  qed
  from general kept show ?thesis by blast
qed

theorem lifo_round_trip_witness:
  "\<not> closed example_shard \<and> isBorrowed example_world_borrowed 0
   \<and> length (idle example_shard) < to_size_t (kMaxIdle example_shard)
   \<and> PoolShard_put 0 False example_world_borrowed example_shard =
       (None, setBorrowed 0 False example_world_borrowed,
        example_shard\<lparr>stats := (stats example_shard)\<lparr>numPut := 1\<rparr>, idle := [0]\<rparr>)
   \<and> PoolShard_get open_always 0 0 (setBorrowed 0 False example_world_borrowed)
        (example_shard\<lparr>stats := (stats example_shard)\<lparr>numPut := 1\<rparr>, idle := [0]\<rparr>) =
       (Some 0, setBorrowed 0 True (setBorrowed 0 False example_world_borrowed),
        example_shard\<lparr>stats := (stats example_shard)\<lparr>numPut := 1, numGet := 1\<rparr>\<rparr>)"
proof -
  have h: "\<not> closed example_shard" "isBorrowed example_world_borrowed 0"
    by (simp_all add: example_simps)
  have l: "length (idle example_shard) < to_size_t (kMaxIdle example_shard)"
    by (simp add: example_simps to_size_t_def)
  have e: "idle example_shard = []" "fails example_shard = 0"
    "numPut (stats example_shard) = 0" "numGet (stats example_shard) = 0"
    by (simp_all add: example_simps)
  have eq1: "example_shard\<lparr>stats := (stats example_shard)\<lparr>numPut := numPut (stats example_shard) + 1\<rparr>,
        fails := 0, idle := 0 # idle example_shard\<rparr> =
      example_shard\<lparr>stats := (stats example_shard)\<lparr>numPut := 1\<rparr>, idle := [0]\<rparr>"
    using e by simp
  have eq2: "example_shard\<lparr>stats := (stats example_shard)\<lparr>numPut := numPut (stats example_shard) + 1,
        numGet := numGet (stats example_shard) + 1\<rparr>, fails := 0\<rparr> =
      example_shard\<lparr>stats := (stats example_shard)\<lparr>numPut := 1, numGet := 1\<rparr>\<rparr>"
    using e by simp
  from lifo_round_trip[OF h, of open_always 0 0] l
  have "PoolShard_put 0 False example_world_borrowed example_shard =
       (None, setBorrowed 0 False example_world_borrowed,
        example_shard\<lparr>stats := (stats example_shard)\<lparr>numPut := 1\<rparr>, idle := [0]\<rparr>)
   \<and> PoolShard_get open_always 0 0 (setBorrowed 0 False example_world_borrowed)
        (example_shard\<lparr>stats := (stats example_shard)\<lparr>numPut := 1\<rparr>, idle := [0]\<rparr>) =
       (Some 0, setBorrowed 0 True (setBorrowed 0 False example_world_borrowed),
        example_shard\<lparr>stats := (stats example_shard)\<lparr>numPut := 1, numGet := 1\<rparr>\<rparr>)"
    unfolding eq1 eq2 by blast
  with h l show ?thesis by simp
qed

section \<open>Shard: timeouts of new connections\<close>

text \<open>
  Claim C4. A configuration built with the explicit constructor from the timeouts 250 and
  300 stores 100 and 100, and a connection the shard creates under it is constructed
  with 100 and 100: the timeouts passed to the constructor do not reach the connection.
\<close>

theorem explicit_config_timeouts_ignored:
  "connTimeoutMs (PoolConfig_explicit 250 300 10 100 5) = 100
   \<and> dataTimeoutMs (PoolConfig_explicit 250 300 10 100 5) = 100
   \<and> fst (PoolShard_get open_always 0 0 example_world
            (PoolShard_new example_addr (PoolConfig_explicit 250 300 10 100 5))) = Some 1
   \<and> connTimeout (heap (fst (snd (PoolShard_get open_always 0 0 example_world
            (PoolShard_new example_addr (PoolConfig_explicit 250 300 10 100 5))))) 1) = 100
   \<and> dataTimeout (heap (fst (snd (PoolShard_get open_always 0 0 example_world
            (PoolShard_new example_addr (PoolConfig_explicit 250 300 10 100 5))))) 1) = 100"
  by (simp add: PoolConfig_explicit_def PoolShard_get_def get_loop_once get_locked_def
      get_enter_def get_dial_def make_shared_def Let_def setBorrowed_def setDataSource_def
      dial_ok_def PoolShard_new_def PoolStats_new_def example_world_def example_addr_def
      open_always_def)

section \<open>Shard: the failure counter\<close>

text \<open>
  Claim C8, amended. When \<open>get\<close> dials, \<open>fails\<close> is reset to 0 if \<open>open()\<close> succeeds and
  grows by 1 if it throws. A release of a borrowed connection makes \<open>fails\<close> grow by 1
  when it is broken and resets it to 0 when it is clean; a duplicate release, broken or
  not, leaves \<open>fails\<close> as it is. \<open>isSuspectable\<close> holds exactly when \<open>fails \<ge> maxFails\<close>
  as unsigned 32-bit values.
\<close>

theorem fails_counter:
  "(idle s = [] \<and> \<not> closed s \<and> (kMaxActive s = 0 \<or> active s < kMaxActive s) \<longrightarrow>
      fails (snd (snd (PoolShard_get open_ok this wakeups w s))) =
        (if open_ok (next_conn w) then 0 else fails s + 1))
   \<and> (isBorrowed w pc \<longrightarrow>
      fails (snd (snd (PoolShard_put pc broken w s))) = (if broken then fails s + 1 else 0))
   \<and> (\<not> isBorrowed w pc \<longrightarrow> fails (snd (snd (PoolShard_put pc broken w s))) = fails s)
   \<and> (isSuspectable s \<longleftrightarrow> unat (kMaxFails s) \<le> unat (fails s))"
proof -
  have g: "idle s = [] \<and> \<not> closed s \<and> (kMaxActive s = 0 \<or> active s < kMaxActive s) \<longrightarrow>
      fails (snd (snd (PoolShard_get open_ok this wakeups w s))) =
        (if open_ok (next_conn w) then 0 else fails s + 1)"
    by (auto simp: get_dials get_dial_def make_shared_def Let_def dial_ok_def
        dial_fail_locked_def dial_fail_count_def)
  have p: "isBorrowed w pc \<longrightarrow>
      fails (snd (snd (PoolShard_put pc broken w s))) = (if broken then fails s + 1 else 0)"
  proof
    assume b: "isBorrowed w pc"
    show "fails (snd (snd (PoolShard_put pc broken w s))) = (if broken then fails s + 1 else 0)"
    proof (cases broken)
      case True
      with b show ?thesis by (simp add: put_broken)
    next
      case nb: False
      show ?thesis
      proof (cases "closed s")
        case True
        with b nb show ?thesis by (simp add: put_clean_closed)
      next
        case False
        with b nb show ?thesis
          by (auto simp: put_clean_open put_park_def Let_def split: option.splits prod.splits)
      qed
    qed
  qed
  have d: "\<not> isBorrowed w pc \<longrightarrow> fails (snd (snd (PoolShard_put pc broken w s))) = fails s"
    by (simp add: put_duplicate)
  have i: "isSuspectable s \<longleftrightarrow> unat (kMaxFails s) \<le> unat (fails s)"
    by (simp add: isSuspectable_def word_le_nat_alt)
  from g p d i show ?thesis by blast
qed

theorem fails_counter_witness:
  "idle example_shard = [] \<and> \<not> closed example_shard
   \<and> (kMaxActive example_shard = 0 \<or> active example_shard < kMaxActive example_shard)
   \<and> isBorrowed example_world_borrowed 0 \<and> \<not> isBorrowed example_world 0
   \<and> fails (snd (snd (PoolShard_get open_never 0 0 example_world example_shard))) = 1
   \<and> fails (snd (snd (PoolShard_put 0 True example_world_borrowed example_shard))) = 1
   \<and> fails (snd (snd (PoolShard_put 0 True example_world example_shard))) = 0
   \<and> \<not> isSuspectable example_shard"
proof -
  have h: "idle example_shard = [] \<and> \<not> closed example_shard
      \<and> (kMaxActive example_shard = 0 \<or> active example_shard < kMaxActive example_shard)"
    "isBorrowed example_world_borrowed 0" "\<not> isBorrowed example_world 0"
    by (simp_all add: example_simps)
  have f: "fails example_shard = 0" "kMaxFails example_shard = 5"
    by (simp_all add: example_simps)
  from fails_counter[of example_shard open_never 0 0 example_world 0 True]
    fails_counter[of example_shard open_never 0 0 example_world_borrowed 0 True]
    h f show ?thesis by (simp add: open_never_def)
qed

text \<open>
  The claim as it stands has \<open>fails\<close> grow on each release with \<open>broken = true\<close>; a
  duplicate broken release does not touch it.
\<close>

theorem fails_duplicate_broken_counterexample:
  "\<not> isBorrowed example_world 0
   \<and> fails (snd (snd (PoolShard_put 0 True example_world example_shard))) \<noteq> fails example_shard + 1"
  by (simp add: example_simps PoolShard_put_def)

section \<open>Pool: auxiliary facts\<close>

lemma filter_update_count:
  "i < length xs \<Longrightarrow>
   int (length (filter P (xs[i := y]))) =
     int (length (filter P xs)) - (if P (xs ! i) then 1 else 0) + (if P y then 1 else 0)"
proof (induction xs arbitrary: i)
  case Nil
  then show ?case by simp
next
  case (Cons x xs)
  show ?case
  proof (cases i)
    case 0
    then show ?thesis by simp
  next
    case (Suc j)
    with Cons.prems have "j < length xs" by simp
    from Cons.IH[OF this] Suc show ?thesis by (auto split: if_splits)
  qed
qed

lemma to_size_t_id: "0 \<le> x \<Longrightarrow> x < 2 ^ 64 \<Longrightarrow> to_size_t x = nat x"
  by (simp add: to_size_t_def)

lemma quorum_inv_range:
  assumes "quorum_inv p"
  shows "0 \<le> numAvailable p" and "numAvailable p \<le> int (length (servers p))"
proof -
  from assms have "servers p \<noteq> []" by (simp add: quorum_inv_def pool_wf_def)
  then have "0 < int (length (servers p))" by simp
  with assms show "0 \<le> numAvailable p" by (simp add: quorum_inv_def)
  have "length (filter available (poolShards p)) \<le> length (poolShards p)"
    by (rule length_filter_le)
  with assms show "numAvailable p \<le> int (length (servers p))"
    by (simp add: quorum_inv_def pool_wf_def available_count_def)
qed

lemma guard_plain:
  assumes "quorum_inv p"
  shows "(to_size_t (numAvailable p * 3) > (length (servers p) * 2) mod 2 ^ 64)
     \<longleftrightarrow> numAvailable p * 3 > int (length (servers p)) * 2"
proof -
  from assms have n: "3 * int (length (servers p)) < 2 ^ 31" by (simp add: quorum_inv_def)
  note r = quorum_inv_range[OF assms]
  have a: "to_size_t (numAvailable p * 3) = nat (numAvailable p * 3)"
    using r n by (intro to_size_t_id) auto
  have "int (length (servers p) * 2) < 2 ^ 64" using n by simp
  then have "int (length (servers p) * 2) < int (2 ^ 64)" by simp
  then have "length (servers p) * 2 < 2 ^ 64" by (simp only: of_nat_less_iff)
  then have b: "(length (servers p) * 2) mod 2 ^ 64 = length (servers p) * 2" by simp
  show ?thesis unfolding a b using r by linarith
qed

lemma markAvailable_down:
  assumes "quorum_inv p"
  shows "DPool_markAvailable i False p =
     (if numAvailable p * 3 > int (length (servers p)) * 2 \<and> available (poolShards p ! i)
      then p\<lparr>poolShards := (poolShards p)[i := (poolShards p ! i)\<lparr>available := False\<rparr>],
             numAvailable := numAvailable p - 1\<rparr>
      else p)"
  using guard_plain[OF assms]
  by (auto simp: DPool_markAvailable_def PoolShard_markAvailable_def)

lemma markAvailable_up:
  "DPool_markAvailable i True p =
     (if \<not> available (poolShards p ! i)
      then p\<lparr>poolShards := (poolShards p)[i := (poolShards p ! i)\<lparr>available := True\<rparr>],
             numAvailable := numAvailable p + 1\<rparr>
      else p)"
  by (auto simp: DPool_markAvailable_def PoolShard_markAvailable_def)

lemma markAvailable_inv:
  assumes "quorum_inv p" and "i < length (servers p)"
  shows "quorum_inv (DPool_markAvailable i b p)"
proof (cases b)
  case True
  with assms show ?thesis
    by (auto simp: markAvailable_up quorum_inv_def pool_wf_def available_count_def
        filter_update_count)
next
  case False
  with assms show ?thesis
    by (auto simp: markAvailable_down quorum_inv_def pool_wf_def available_count_def
        filter_update_count)
qed

lemma markAvailable_servers: "servers (DPool_markAvailable i b p) = servers p"
  by (auto simp: DPool_markAvailable_def PoolShard_markAvailable_def
      split: prod.splits bool.splits)

lemma prober_calls_inv:
  "quorum_inv p \<Longrightarrow> \<forall>c \<in> set cs. fst c < length (servers p) \<Longrightarrow>
   quorum_inv (prober_calls cs p) \<and> servers (prober_calls cs p) = servers p"
proof (induction cs arbitrary: p)
  case Nil
  then show ?case by simp
next
  case (Cons c cs)
  obtain i b where c: "c = (i, b)" by (cases c)
  from Cons.prems c have "quorum_inv (DPool_markAvailable i b p)"
    by (simp add: markAvailable_inv)
  with Cons.IH[of "DPool_markAvailable i b p"] Cons.prems c show ?case
    by (simp add: markAvailable_servers)
qed

lemma DPool_new_inv:
  "srv \<noteq> [] \<Longrightarrow> 3 * int (length srv) < 2 ^ 31 \<Longrightarrow> quorum_inv (DPool_new srv cfg i0)"
  by (simp add: quorum_inv_def DPool_new_def pool_wf_def available_count_def PoolShard_new_def
      filter_map o_def)

lemma get_from_impl_spec:
  "length (poolShards p) = length (servers p) \<Longrightarrow>
   spec_tries open_ok wk local t w p (get_from open_ok wk local t w p)"
proof (induction open_ok wk local t w p rule: get_from.induct)
  case (1 open_ok wk local t w p)
  let ?i = "unat (local + of_nat t) mod length (servers p)"
  show ?case
  proof (cases "t < 5")
    case False
    then show ?thesis
      by (subst get_from.simps) (simp add: spec_tries.exhausted)
  next
    case t: True
    show ?thesis
    proof (cases "isAvailable (poolShards p ! ?i)")
      case False
      with t 1 show ?thesis
        by (subst get_from.simps) (auto simp: Let_def isAvailable_def intro: spec_tries.skip)
    next
      case av: True
      obtain r w' s' where g: "PoolShard_get open_ok ?i wk w (poolShards p ! ?i) = (r, w', s')"
        by (cases "PoolShard_get open_ok ?i wk w (poolShards p ! ?i)") auto
      show ?thesis
      proof (cases r)
        case None
        with t av g 1 show ?thesis
          by (subst get_from.simps) (auto simp: Let_def isAvailable_def intro: spec_tries.null)
      next
        case (Some c)
        with t av g 1 show ?thesis
          by (subst get_from.simps) (auto simp: Let_def isAvailable_def intro: spec_tries.found)
      qed
    qed
  qed
qed

lemma spec_impl_get_from:
  "spec_tries open_ok wk local t w p r \<Longrightarrow> length (poolShards p) = length (servers p) \<Longrightarrow>
   r = get_from open_ok wk local t w p"
proof (induction rule: spec_tries.induct)
  case (exhausted t w p)
  then show ?case by (subst get_from.simps) simp
next
  case (skip t i p w r)
  then show ?case by (subst get_from.simps) (simp add: isAvailable_def)
next
  case (null t i p w w' s' r)
  then show ?case by (subst get_from.simps) (simp add: isAvailable_def Let_def)
next
  case (found t i p w c w' s')
  then show ?case by (subst get_from.simps) (simp add: isAvailable_def Let_def)
qed

lemma get_from_all_unavailable:
  "\<forall>s \<in> set (poolShards p). \<not> available s \<Longrightarrow> pool_wf p \<Longrightarrow> t \<le> 5 \<Longrightarrow>
   get_from open_ok wk local t w p =
     (Inl max_retries_exception, w, p\<lparr>index := index p + of_nat (5 - t)\<rparr>)"
proof (induction open_ok wk local t w p rule: get_from.induct)
  case (1 open_ok wk local t w p)
  show ?case
  proof (cases "t < 5")
    case False
    with 1 show ?thesis by (subst get_from.simps) simp
  next
    case t: True
    let ?i = "unat (local + of_nat t) mod length (servers p)"
    have "?i < length (poolShards p)" using "1.prems" by (simp add: pool_wf_def)
    then have na: "\<not> isAvailable (poolShards p ! ?i)"
      using "1.prems" by (simp add: isAvailable_def)
    have "get_from open_ok wk local (t + 1) w (p\<lparr>index := index p + 1\<rparr>) =
       (Inl max_retries_exception, w,
        (p\<lparr>index := index p + 1\<rparr>)\<lparr>index := index (p\<lparr>index := index p + 1\<rparr>)
           + of_nat (5 - (t + 1))\<rparr>)"
      using "1.IH"(1)[OF t refl na] "1.prems" t by (simp add: pool_wf_def)
    moreover from t have "5 - t = Suc (5 - (t + 1))" by simp
    then have "of_nat (5 - t) = (1::32 word) + of_nat (5 - (t + 1))"
      by (simp only: of_nat_Suc)
    ultimately show ?thesis
      using t na by (subst get_from.simps) (simp add: Let_def add.assoc)
  qed
qed

lemma get_from_Inl:
  "fst (get_from open_ok wk local t w p) = Inl e \<Longrightarrow> e = max_retries_exception"
proof (induction open_ok wk local t w p rule: get_from.induct)
  case (1 open_ok wk local t w p)
  let ?i = "unat (local + of_nat t) mod length (servers p)"
  let ?r = "PoolShard_get open_ok ?i wk w (poolShards p ! ?i)"
  show ?case
  proof (cases "t < 5")
    case False
    with "1.prems" show ?thesis by (subst (asm) get_from.simps) simp
  next
    case t: True
    show ?thesis
    proof (cases "isAvailable (poolShards p ! ?i)")
      case na: False
      from "1.prems" t na
      have "fst (get_from open_ok wk local (t + 1) w (p\<lparr>index := index p + 1\<rparr>)) = Inl e"
        by (subst (asm) get_from.simps) (simp add: Let_def)
      from "1.IH"(1)[OF t refl na this] show ?thesis .
    next
      case av: True
      then have av': "\<not> \<not> isAvailable (poolShards p ! ?i)" by simp
      show ?thesis
      proof (cases "fst ?r")
        case None
        from "1.prems" t av None
        have "fst (get_from open_ok wk local (t + 1) (fst (snd ?r))
                 ((p\<lparr>poolShards := (poolShards p)[?i := snd (snd ?r)]\<rparr>)
                    \<lparr>index := index (p\<lparr>poolShards := (poolShards p)[?i := snd (snd ?r)]\<rparr>) + 1\<rparr>))
              = Inl e"
          by (subst (asm) get_from.simps) (simp add: Let_def)
        from "1.IH"(2)[OF t refl av' refl refl None this] show ?thesis .
      next
        case (Some c)
        with "1.prems" t av show ?thesis
          by (subst (asm) get_from.simps) (simp add: Let_def)
      qed
    qed
  qed
qed

section \<open>Pool: the quorum guard\<close>

text \<open>
  Claim C1, amended. Take a pool of \<open>N\<close> servers (\<open>0 < N\<close>, \<open>3 * N\<close> within \<^verbatim>\<open>int\<close>) as the
  constructor builds it and let the health check thread make any sequence of calls on
  its shards, reaching \<open>p\<close>. A mark-down of a shard then sets the shard's flag to false
  and decrements \<open>numAvailable\<close> exactly when \<open>numAvailable * 3 > N * 2\<close> holds before and
  the flag was true; otherwise the flag and \<open>numAvailable\<close> stay as they are.
  \<open>numAvailable\<close> is the number of shards flagged available, and before and after the
  mark-down \<open>(numAvailable + 1) * 3 > N * 2\<close>: a mark-down takes \<open>numAvailable\<close> down by one
  from a value strictly above two thirds of \<open>N\<close>, and no further.
\<close>

theorem quorum_guard_mark_down:
  assumes "srv \<noteq> []" and "3 * int (length srv) < 2 ^ 31"
    and "\<forall>c \<in> set cs. fst c < length srv" and "i < length srv"
    and "p = prober_calls cs (DPool_new srv cfg i0)"
  shows "DPool_markAvailable i False p =
           (if numAvailable p * 3 > int (length srv) * 2 \<and> available (poolShards p ! i)
            then p\<lparr>poolShards := (poolShards p)[i := (poolShards p ! i)\<lparr>available := False\<rparr>],
                   numAvailable := numAvailable p - 1\<rparr>
            else p)
       \<and> numAvailable p = available_count p
       \<and> int (length srv) * 2 < (numAvailable p + 1) * 3
       \<and> int (length srv) * 2 < (numAvailable (DPool_markAvailable i False p) + 1) * 3"
proof -
  have s0: "servers (DPool_new srv cfg i0) = srv" by (simp add: DPool_new_def)
  from prober_calls_inv[OF DPool_new_inv[OF assms(1,2), of cfg i0], of cs] assms(3,5) s0
  have inv: "quorum_inv p" and srv: "servers p = srv" by simp_all
  from markAvailable_inv[OF inv, of i False] assms(4) srv
  have inv': "quorum_inv (DPool_markAvailable i False p)" by simp
  from inv srv have a: "numAvailable p = available_count p"
    "int (length srv) * 2 < (numAvailable p + 1) * 3"
    by (simp_all add: quorum_inv_def)
  from inv' srv have b: "int (length srv) * 2 < (numAvailable (DPool_markAvailable i False p) + 1) * 3"
    by (simp add: quorum_inv_def markAvailable_servers)
  from markAvailable_down[OF inv, of i] srv a b show ?thesis by simp
qed

theorem quorum_guard_mark_down_witness:
  "example_servers \<noteq> [] \<and> 3 * int (length example_servers) < 2 ^ 31
   \<and> fst (0::nat, False) < length example_servers
   \<and> fst (1::nat, False) < length example_servers
   \<and> 2 < length example_servers
   \<and> numAvailable (prober_calls [(0, False), (1, False)] example_pool) = 2
   \<and> DPool_markAvailable 2 False (prober_calls [(0, False), (1, False)] example_pool) =
       prober_calls [(0, False), (1, False)] example_pool"
proof -
  have h: "example_servers \<noteq> []" "3 * int (length example_servers) < 2 ^ 31"
    "\<forall>c \<in> set [(0, False), (1, False)]. fst c < length example_servers"
    "2 < length example_servers"
    "prober_calls [(0, False), (1, False)] example_pool =
       prober_calls [(0, False), (1, False)] (DPool_new example_servers PoolConfig_default 0)"
    by (simp_all add: example_servers_def example_pool_def)
  have n: "numAvailable (prober_calls [(0, False), (1, False)] example_pool) = 2"
    by (simp add: pool_example_simps DPool_markAvailable_def PoolShard_markAvailable_def
        to_size_t_def)
  from quorum_guard_mark_down[OF h] h n show ?thesis
    by (simp add: example_servers_def)
qed

text \<open>
  The claim as it stands says that no mark-down takes \<open>numAvailable\<close> to two thirds of
  \<open>N\<close> or below. With three servers the first mark-down is allowed (\<open>3 * 3 > 3 * 2\<close>) and
  leaves \<open>numAvailable = 2\<close>, which is two thirds of 3.
\<close>

theorem quorum_two_thirds_counterexample:
  "numAvailable example_pool = 3
   \<and> numAvailable (prober_calls [(0, False)] example_pool) = 2
   \<and> \<not> (int (length (servers example_pool)) * 2
          < numAvailable (prober_calls [(0, False)] example_pool) * 3)"
  by (simp add: pool_example_simps DPool_markAvailable_def PoolShard_markAvailable_def
      to_size_t_def)

section \<open>Pool: get\<close>

text \<open>
  Claim C2. \<open>DPool::get\<close> is the acquire of the specification: the results the
  specification allows for a call are exactly the one result the code computes. In
  particular, when every shard is unavailable the call throws, the cursor has advanced by
  6 (once for the snapshot, once for each of the five skips), and the store and every
  shard are untouched: no shard's \<open>get\<close> has run.
\<close>

theorem DPool_get_refines_acquire:
  assumes "pool_wf p"
  shows "(spec_acquire open_ok wakeups w p r \<longleftrightarrow> r = DPool_get open_ok wakeups w p)
       \<and> ((\<forall>s \<in> set (poolShards p). \<not> available s) \<longrightarrow>
            DPool_get open_ok wakeups w p =
              (Inl max_retries_exception, w, p\<lparr>index := index p + 6\<rparr>))"
proof -
  let ?p = "p\<lparr>index := index p + 1\<rparr>"
  from assms have len: "length (poolShards ?p) = length (servers ?p)" and wf: "pool_wf ?p"
    by (simp_all add: pool_wf_def)
  have "spec_acquire open_ok wakeups w p r \<longleftrightarrow> r = DPool_get open_ok wakeups w p"
    unfolding spec_acquire_def DPool_get_def
    using get_from_impl_spec[OF len] spec_impl_get_from[OF _ len] by blast
  moreover have "DPool_get open_ok wakeups w p =
      (Inl max_retries_exception, w, p\<lparr>index := index p + 6\<rparr>)"
    if "\<forall>s \<in> set (poolShards p). \<not> available s"
  proof -
    from that have "\<forall>s \<in> set (poolShards ?p). \<not> available s" by simp
    from get_from_all_unavailable[OF this wf, of 0 open_ok wakeups "index p" w]
    show ?thesis by (simp add: DPool_get_def)
  qed
  ultimately show ?thesis by blast
qed

theorem DPool_get_refines_acquire_witness:
  "pool_wf example_pool_down
   \<and> length (poolShards example_pool_down) = 3
   \<and> \<not> available (poolShards example_pool_down ! 0)
   \<and> \<not> available (poolShards example_pool_down ! 1)
   \<and> \<not> available (poolShards example_pool_down ! 2)
   \<and> DPool_get open_always 0 example_world example_pool_down =
       (Inl max_retries_exception, example_world, example_pool_down\<lparr>index := 6\<rparr>)
   \<and> spec_acquire open_always 0 example_world example_pool_down
       (Inl max_retries_exception, example_world, example_pool_down\<lparr>index := 6\<rparr>)"
proof -
  have h: "pool_wf example_pool_down"
    "\<forall>s \<in> set (poolShards example_pool_down). \<not> available s"
    "index example_pool_down = 0"
    by (simp_all add: pool_wf_def pool_example_simps)
  have a: "length (poolShards example_pool_down) = 3"
    "\<not> available (poolShards example_pool_down ! 0)"
    "\<not> available (poolShards example_pool_down ! 1)"
    "\<not> available (poolShards example_pool_down ! 2)"
    by (simp_all add: pool_example_simps)
  from DPool_get_refines_acquire[OF h(1), of open_always 0 example_world
      "(Inl max_retries_exception, example_world, example_pool_down\<lparr>index := 6\<rparr>)"] h a
  show ?thesis by simp
qed

section \<open>Pool: the exception of get\<close>

text \<open>
  Claim C9, amended. Whenever \<open>DPool::get\<close> throws, the exception is the same value
  whatever the pool and its endpoints are: the message
  \<^verbatim>\<open>failed to get connection after max retries\<close> with the file and line of the throw.
  The message contains the string form \<open>host:port\<close> of no endpoint at all.
\<close>

theorem max_retries_exception_fixed:
  assumes "fst (DPool_get open_ok wakeups w p) = Inl e"
  shows "e = max_retries_exception
       \<and> what e = ''failed to get connection after max retries''
       \<and> (\<forall>a. \<not> sublist (to_string a) (what e))"
proof -
  from assms have e: "e = max_retries_exception"
    unfolding DPool_get_def by (rule get_from_Inl)
  have "\<not> sublist (to_string a) (what max_retries_exception)" for a
  proof
    assume "sublist (to_string a) (what max_retries_exception)"
    then have "set (to_string a) \<subseteq> set (what max_retries_exception)"
      by (rule set_mono_sublist)
    moreover have "CHR '':'' \<in> set (to_string a)" by (simp add: to_string_def)
    ultimately have "CHR '':'' \<in> set (what max_retries_exception)" by blast
    then show False by (simp add: max_retries_exception_def what_def)
  qed
  with e show ?thesis by (simp add: max_retries_exception_def what_def)
qed

theorem max_retries_exception_fixed_witness:
  "fst (DPool_get open_always 0 example_world example_pool_down) = Inl max_retries_exception
   \<and> what max_retries_exception = ''failed to get connection after max retries''
   \<and> \<not> sublist (to_string example_addr) (what max_retries_exception)"
proof -
  have h: "fst (DPool_get open_always 0 example_world example_pool_down) =
      Inl max_retries_exception"
    by (simp add: DPool_get_def get_from.simps pool_example_simps isAvailable_def Let_def)
  from max_retries_exception_fixed[OF h] h show ?thesis by blast
qed

text \<open>
  The claim as it stands has the exception name the endpoints the call failed against.
  With the three servers of the example all marked unavailable the call throws, and
  neither \<^verbatim>\<open>what()\<close> nor \<^verbatim>\<open>str()\<close> of the exception contains the string form of any of
  the three.
\<close>

theorem exhausted_without_endpoint_counterexample:
  "fst (DPool_get open_always 0 example_world example_pool_down) = Inl max_retries_exception
   \<and> length (servers example_pool_down) = 3
   \<and> to_string (servers example_pool_down ! 0) = ''127.0.0.1:6379''
   \<and> to_string (servers example_pool_down ! 1) = ''127.0.0.1:6380''
   \<and> to_string (servers example_pool_down ! 2) = ''127.0.0.1:6381''
   \<and> str max_retries_exception =
       ''dpool: failed to get connection after max retries/@dpool.h:68''
   \<and> \<not> sublist (to_string (servers example_pool_down ! 0)) (what max_retries_exception)
   \<and> \<not> sublist (to_string (servers example_pool_down ! 1)) (what max_retries_exception)
   \<and> \<not> sublist (to_string (servers example_pool_down ! 2)) (what max_retries_exception)
   \<and> \<not> sublist (to_string (servers example_pool_down ! 0)) (str max_retries_exception)
   \<and> \<not> sublist (to_string (servers example_pool_down ! 1)) (str max_retries_exception)
   \<and> \<not> sublist (to_string (servers example_pool_down ! 2)) (str max_retries_exception)"
proof -
  have g: "fst (DPool_get open_always 0 example_world example_pool_down) =
      Inl max_retries_exception"
    by (simp add: DPool_get_def get_from.simps pool_example_simps isAvailable_def Let_def)
  have a: "length (servers example_pool_down) = 3"
    "to_string (servers example_pool_down ! 0) = ''127.0.0.1:6379''"
    "to_string (servers example_pool_down ! 1) = ''127.0.0.1:6380''"
    "to_string (servers example_pool_down ! 2) = ''127.0.0.1:6381''"
    by (simp_all add: pool_example_simps to_string_def to_string_nat.simps)
  have e: "what max_retries_exception = ''failed to get connection after max retries''"
    "str max_retries_exception =
       ''dpool: failed to get connection after max retries/@dpool.h:68''"
    by (simp_all add: what_def str_def max_retries_exception_def to_string_nat.simps)
  have n: "\<not> sublist ''127.0.0.1:6379'' ''failed to get connection after max retries''"
    "\<not> sublist ''127.0.0.1:6380'' ''failed to get connection after max retries''"
    "\<not> sublist ''127.0.0.1:6381'' ''failed to get connection after max retries''"
    "\<not> sublist ''127.0.0.1:6379''
        ''dpool: failed to get connection after max retries/@dpool.h:68''"
    "\<not> sublist ''127.0.0.1:6380''
        ''dpool: failed to get connection after max retries/@dpool.h:68''"
    "\<not> sublist ''127.0.0.1:6381''
        ''dpool: failed to get connection after max retries/@dpool.h:68''"
    by (simp_all add: sublist_code)
  from g a e n show ?thesis by (simp only: simp_thms)
qed

end
